theory Spec2Isabelle
  imports Main "HOL-Library.Word" "HOL-Library.Signed_Division" "HOL-Library.AList"
begin

section \<open>The Monkey evaluator (package evaluator, evaluator.go)\<close>

subsection \<open>Syntax tree\<close>

text \<open>
  The node kinds of package ast that \<open>Eval\<close> switches on. The fields follow the way
  evaluator.go reads them: \<open>LetStatement\<close> is \<open>Name.Value\<close> and \<open>Value\<close>;
  \<open>IfExpression\<close> is \<open>Condition\<close>, the statements of the \<open>Consequence\<close> block and
  those of the optional \<open>Alternative\<close> block; \<open>FunctionLiteral\<close> is the names of
  \<open>Parameters\<close> and the statements of \<open>Body\<close>. \<open>HashLiteral\<close> holds the entries of
  \<open>Pairs\<close>, which the evaluator ranges over with a node as key: a host map from key
  node to value node, written here as the list of its entries.
\<close>

datatype node =
    Program "node list"
  | LetStatement string node
  | ReturnStatement node
  | ExpressionStatement node
  | BlockStatement "node list"
  | IfExpression node "node list" "node list option"
  | IntegerLiteral "64 word"
  | BooleanLiteral bool
  | StringLiteral string
  | Identifier string
  | PrefixExpression string node
  | InfixExpression node string node
  | FunctionLiteral "string list" "node list"
  | CallExpression node "node list"
  | ArrayLiteral "node list"
  | IndexExpression node node
  | HashLiteral "(node \<times> node) list"

subsection \<open>Runtime values\<close>

text \<open>
  Modelled from the spec: package object is not among the sources. The type tags of
  section 3 of the specification, named as evaluator.go names them, with the text each
  one prints in an error message: the specification's messages show \<open>STRING\<close>,
  \<open>HASH\<close> and \<open>ARRAY\<close>, and the other texts follow the constants' names in the
  same way.
\<close>

datatype object_type =
    INTEGER_OBJ | BOOLEAN_OBJ | NULL_OBJ | RETURN_VALUE_OBJ | ERROR_OBJ
  | FUNCTION_OBJ | STRING_OBJ | BUILTIN_OBJ | ARRAY_OBJ | HASH_OBJ

fun type_name :: "object_type \<Rightarrow> string" where
  "type_name INTEGER_OBJ = ''INTEGER''"
| "type_name BOOLEAN_OBJ = ''BOOLEAN''"
| "type_name NULL_OBJ = ''NULL''"
| "type_name RETURN_VALUE_OBJ = ''RETURN_VALUE''"
| "type_name ERROR_OBJ = ''ERROR''"
| "type_name FUNCTION_OBJ = ''FUNCTION''"
| "type_name STRING_OBJ = ''STRING''"
| "type_name BUILTIN_OBJ = ''BUILTIN''"
| "type_name ARRAY_OBJ = ''ARRAY''"
| "type_name HASH_OBJ = ''HASH''"

text \<open>
  Modelled from the spec: a hash key is a kind tag and a 64-bit discriminant.
\<close>

datatype hash_key = MkHashKey object_type "64 word"

text \<open>
  Modelled from the spec: the value kinds of section 3. An \<open>object.Object\<close> is a Go
  interface holding a pointer, so a value here is what the interface holds:
  \<^item> \<open>GoNil\<close> is the nil interface, which \<open>Eval\<close> returns for a statement without
    a result;
  \<^item> \<open>Boolean\<close> and \<open>Null\<close> exist only as the shared instances \<open>TRUE\<close>, \<open>FALSE\<close>
    and \<open>NULL\<close>;
  \<^item> strings, arrays, hashes, functions and return wrappers carry the address of
    their allocation (a \<open>nat\<close>), because \<open>==\<close> and \<open>!=\<close> compare them by pointer.
    Objects are never written after they are built, so two model values are equal
    exactly when the pointers are;
  \<^item> integers and errors carry no address: the evaluator never compares their
    pointers (integers are compared by value, errors are returned at once);
  \<^item> the pairs of a hash are a host map from hash key to (key, value): a list of
    entries with one entry for a key, written with \<open>AList.update\<close> (an entry for
    the key is replaced, a new key is added);
  \<^item> a built-in is the index of its entry in the built-in table;
  \<^item> a function holds the address of the environment it closes over.
\<close>

datatype object =
    GoNil
  | Integer "64 word"
  | Boolean bool
  | Null
  | String nat string
  | Array nat "object list"
  | Hash nat "(hash_key \<times> object \<times> object) list"
  | Function nat "string list" "node list" nat
  | Builtin nat
  | ReturnValue nat object
  | Error string

text \<open>\<open>Type()\<close>; calling it on the nil interface is a nil dereference (\<open>None\<close>).\<close>

fun Type :: "object \<Rightarrow> object_type option" where
  "Type GoNil = None"
| "Type (Integer _) = Some INTEGER_OBJ"
| "Type (Boolean _) = Some BOOLEAN_OBJ"
| "Type Null = Some NULL_OBJ"
| "Type (String _ _) = Some STRING_OBJ"
| "Type (Array _ _) = Some ARRAY_OBJ"
| "Type (Hash _ _) = Some HASH_OBJ"
| "Type (Function _ _ _ _) = Some FUNCTION_OBJ"
| "Type (Builtin _) = Some BUILTIN_OBJ"
| "Type (ReturnValue _ _) = Some RETURN_VALUE_OBJ"
| "Type (Error _) = Some ERROR_OBJ"

definition NULL :: object where "NULL = Null"
definition TRUE :: object where "TRUE = Boolean True"
definition FALSE :: object where "FALSE = Boolean False"

subsection \<open>Outcomes of a host call\<close>

text \<open>
  A Go call returns, panics (a host-level fault, not an \<open>Error\<close> object), or does not
  return. \<open>OutOfFuel\<close> is the bound on the recursion depth of \<open>Eval\<close> running out.
\<close>

datatype fault = NilDereference | IndexOutOfRange | DivideByZero | TypeAssertion

datatype 'a res = Ok 'a | Fault fault | OutOfFuel

subsection \<open>Environments\<close>

text \<open>
  Modelled from the spec: \<open>object.Environment\<close> is not among the sources. An
  environment is a table of bindings and an optional enclosing environment; functions
  and callers share environments by pointer, so they live in a store and are named by
  their index in it. \<open>next_ref\<close> is the next free object address.
\<close>

record environment =
  store :: "string \<Rightarrow> object option"
  outer :: "nat option"

record state =
  envs :: "environment list"
  next_ref :: nat

text \<open>
  Modelled from the spec: \<open>Get\<close> checks the local bindings, then walks the \<open>outer\<close>
  chain. \<open>NewEnclosedEnvironment\<close> gives every environment an index above that of its
  outer one, which is what ends the walk.
\<close>

function Get :: "environment list \<Rightarrow> nat \<Rightarrow> string \<Rightarrow> object option" where
  "Get es e name =
     (if e < length es then
        (case store (es ! e) name of
           Some v \<Rightarrow> Some v
         | None \<Rightarrow>
             (case outer (es ! e) of
                None \<Rightarrow> None
              | Some out \<Rightarrow> if out < e then Get es out name else None))
      else None)"
  by pat_completeness auto
termination
  by (relation "measure (\<lambda>(es, e, name). e)") auto

declare Get.simps [simp del]

text \<open>Modelled from the spec: \<open>Set\<close> writes the local table only.\<close>

definition Set_env :: "nat \<Rightarrow> string \<Rightarrow> object \<Rightarrow> state \<Rightarrow> state" where
  "Set_env e name val st =
     st\<lparr>envs := (envs st)[e := (envs st ! e)\<lparr>store := (store (envs st ! e))(name \<mapsto> val)\<rparr>]\<rparr>"

text \<open>Modelled from the spec: a fresh empty environment chained to \<open>out\<close>.\<close>

definition NewEnclosedEnvironment :: "nat \<Rightarrow> state \<Rightarrow> nat \<times> state" where
  "NewEnclosedEnvironment out st =
     (length (envs st), st\<lparr>envs := envs st @ [\<lparr>store = Map.empty, outer = Some out\<rparr>]\<rparr>)"

text \<open>Allocation of an object (\<open>&object.T{...}\<close>): the next free address.\<close>

definition alloc :: "state \<Rightarrow> nat \<times> state" where
  "alloc st = (next_ref st, st\<lparr>next_ref := Suc (next_ref st)\<rparr>)"

subsection \<open>What the evaluator takes from outside this file\<close>

text \<open>
  The built-in table (\<open>builtins\<close>, name to entry, and what each entry's \<open>Fn\<close> does),
  the content hash of a string's hash key, and the order in which a \<open>range\<close> loop
  visits the entries of a hash literal's \<open>Pairs\<close> map: Go leaves the iteration order
  of a map unspecified, so it is a parameter. A built-in takes the state because it
  may allocate objects, as the evaluator does.
\<close>

record host =
  builtins :: "string \<Rightarrow> nat option"
  builtin_fn :: "nat \<Rightarrow> object list \<Rightarrow> state \<Rightarrow> object res \<times> state"
  string_hash :: "string \<Rightarrow> 64 word"
  range_order :: "(node \<times> node) list \<Rightarrow> (node \<times> node) list"

text \<open>
  Modelled from the spec: \<open>Hashable\<close>. Integers, booleans and strings have a hash key
  (the integer value, 0/1, a content hash); no other kind does.
\<close>

fun HashKey :: "(string \<Rightarrow> 64 word) \<Rightarrow> object \<Rightarrow> hash_key option" where
  "HashKey sh (Integer i) = Some (MkHashKey INTEGER_OBJ i)"
| "HashKey sh (Boolean b) = Some (MkHashKey BOOLEAN_OBJ (if b then 1 else 0))"
| "HashKey sh (String _ s) = Some (MkHashKey STRING_OBJ (sh s))"
| "HashKey sh _ = None"

subsection \<open>Helpers of evaluator.go\<close>

text \<open>Sequencing of host calls: a fault or a stop ends the caller too.\<close>

definition and_then ::
  "'a res \<times> state \<Rightarrow> ('a \<Rightarrow> state \<Rightarrow> 'b res \<times> state) \<Rightarrow> 'b res \<times> state" where
  "and_then m f =
     (case m of
        (Ok v, st) \<Rightarrow> f v st
      | (Fault e, st) \<Rightarrow> (Fault e, st)
      | (OutOfFuel, st) \<Rightarrow> (OutOfFuel, st))"

text \<open>
  A \<open>for\<close> loop with \<open>return\<close> statements in its body either returns from the
  function (\<open>Returned\<close>) or runs to its end (\<open>Completed\<close>, with the loop's variable).
\<close>

datatype ('r, 'a) loop_exit = Returned 'r | Completed 'a

text \<open>\<open>newError\<close> builds the message with \<open>fmt.Sprintf\<close>; each call site's format is
  written out where it is used.\<close>

definition newError :: "string \<Rightarrow> object" where
  "newError msg = Error msg"

fun isError :: "object \<Rightarrow> bool" where
  "isError (Error _) = True"
| "isError _ = False"

definition integer :: "64 word \<Rightarrow> object" where
  "integer number = Integer number"

definition boolean :: "bool \<Rightarrow> object" where
  "boolean b = (if b then TRUE else FALSE)"

definition isTruthy :: "object \<Rightarrow> bool" where
  "isTruthy v = (v \<noteq> FALSE \<and> v \<noteq> NULL)"

definition evalBangOperator :: "object \<Rightarrow> object" where
  "evalBangOperator val =
     (if val = TRUE then FALSE
      else if val = FALSE then TRUE
      else if val = NULL then TRUE
      else FALSE)"

definition evalMinusOperator :: "object \<Rightarrow> object res" where
  "evalMinusOperator right =
     (case Type right of
        None \<Rightarrow> Fault NilDereference
      | Some rt \<Rightarrow>
          if rt \<noteq> INTEGER_OBJ then Ok (newError (''unknown operator: -'' @ type_name rt))
          else (case right of
                  Integer val \<Rightarrow> Ok (Integer (- val))
                | _ \<Rightarrow> Fault TypeAssertion))"

definition evalPrefixExpression :: "string \<Rightarrow> object \<Rightarrow> object res" where
  "evalPrefixExpression operator right =
     (if operator = ''!'' then Ok (evalBangOperator right)
      else if operator = ''-'' then evalMinusOperator right
      else (case Type right of
              None \<Rightarrow> Fault NilDereference
            | Some rt \<Rightarrow> Ok (newError (''unkown operator: '' @ operator @ type_name rt))))"

text \<open>
  Go's \<open>/\<close> on \<open>int64\<close>: it panics on a zero divisor, truncates toward zero, and wraps
  in the one case whose quotient does not fit. The zero check is the caller's branch.
\<close>

definition int64_quo :: "64 word \<Rightarrow> 64 word \<Rightarrow> 64 word" where
  "int64_quo a b = word_of_int (sint a sdiv sint b)"

definition unknown_infix :: "object_type \<Rightarrow> string \<Rightarrow> object_type \<Rightarrow> object" where
  "unknown_infix lt operator rt =
     newError (''unknown operator: '' @ type_name lt @ '' '' @ operator @ '' '' @ type_name rt)"

definition evalIntegerInfixExpression :: "object \<Rightarrow> string \<Rightarrow> object \<Rightarrow> object res" where
  "evalIntegerInfixExpression left operator right =
     (case left of
        Integer leftVal \<Rightarrow>
          (case right of
             Integer rightVal \<Rightarrow>
               if operator = ''+'' then Ok (integer (leftVal + rightVal))
               else if operator = ''-'' then Ok (integer (leftVal - rightVal))
               else if operator = ''*'' then Ok (integer (leftVal * rightVal))
               else if operator = ''/'' then
                 (if rightVal = 0 then Fault DivideByZero
                  else Ok (integer (int64_quo leftVal rightVal)))
               else if operator = ''>'' then Ok (boolean (sint rightVal < sint leftVal))
               else if operator = ''<'' then Ok (boolean (sint leftVal < sint rightVal))
               else if operator = ''=='' then Ok (boolean (leftVal = rightVal))
               else if operator = ''!='' then Ok (boolean (leftVal \<noteq> rightVal))
               else Ok (unknown_infix INTEGER_OBJ operator INTEGER_OBJ)
           | _ \<Rightarrow> Fault TypeAssertion)
      | _ \<Rightarrow> Fault TypeAssertion)"

definition evalStringInfixExpression ::
  "object \<Rightarrow> string \<Rightarrow> object \<Rightarrow> state \<Rightarrow> object res \<times> state" where
  "evalStringInfixExpression left operator right st =
     (case left of
        String _ leftVal \<Rightarrow>
          (case right of
             String _ rightVal \<Rightarrow>
               if operator = ''+'' then
                 (case alloc st of (a, st1) \<Rightarrow> (Ok (String a (leftVal @ rightVal)), st1))
               else (Ok (unknown_infix STRING_OBJ operator STRING_OBJ), st)
           | _ \<Rightarrow> (Fault TypeAssertion, st))
      | _ \<Rightarrow> (Fault TypeAssertion, st))"

text \<open>The cases of the \<open>switch\<close>, in the order of the source.\<close>

definition evalInfixExpression ::
  "object \<Rightarrow> string \<Rightarrow> object \<Rightarrow> state \<Rightarrow> object res \<times> state" where
  "evalInfixExpression left operator right st =
     (case Type left of
        None \<Rightarrow> (Fault NilDereference, st)
      | Some lt \<Rightarrow>
          (case Type right of
             None \<Rightarrow> (Fault NilDereference, st)
           | Some rt \<Rightarrow>
               if lt \<noteq> rt then
                 (Ok (newError (''type mismatch: '' @ type_name lt @ '' '' @ operator @ '' ''
                                  @ type_name rt)), st)
               else if lt = INTEGER_OBJ \<and> rt = INTEGER_OBJ then
                 (evalIntegerInfixExpression left operator right, st)
               else if operator = ''=='' then (Ok (boolean (left = right)), st)
               else if operator = ''!='' then (Ok (boolean (left \<noteq> right)), st)
               else if lt = STRING_OBJ \<and> rt = STRING_OBJ then
                 evalStringInfixExpression left operator right st
               else (Ok (unknown_infix lt operator rt), st)))"

text \<open>
  \<open>max := int64(len(arrayObj.Elements) - 1)\<close> is a 64-bit value and the comparisons
  are signed. \<open>arrayObj.Elements[idx]\<close> is bounds-checked by the host.
\<close>

definition evalArrayIndexExpression :: "object \<Rightarrow> object \<Rightarrow> object res" where
  "evalArrayIndexExpression array index =
     (case array of
        Array _ elements \<Rightarrow>
          (case index of
             Integer idx \<Rightarrow>
               (let max = (word_of_int (int (length elements) - 1) :: 64 word) in
                if sint idx < 0 \<or> sint max < sint idx then Ok NULL
                else if nat (sint idx) < length elements then Ok (elements ! nat (sint idx))
                else Fault IndexOutOfRange)
           | _ \<Rightarrow> Fault TypeAssertion)
      | _ \<Rightarrow> Fault TypeAssertion)"

definition evalIndexExpression :: "object \<Rightarrow> object \<Rightarrow> object res" where
  "evalIndexExpression left index =
     (case Type left of
        None \<Rightarrow> Fault NilDereference
      | Some lt \<Rightarrow>
          if lt = ARRAY_OBJ then
            (case Type index of
               None \<Rightarrow> Fault NilDereference
             | Some it \<Rightarrow>
                 if it = INTEGER_OBJ then evalArrayIndexExpression left index
                 else Ok (newError (''index operator not supported: '' @ type_name lt)))
          else Ok (newError (''index operator not supported: '' @ type_name lt)))"

definition unwrapReturnValue :: "object \<Rightarrow> object" where
  "unwrapReturnValue obj = (case obj of ReturnValue _ v \<Rightarrow> v | _ \<Rightarrow> obj)"

text \<open>
  The loop of \<open>extendedFunctionEnv\<close>: \<open>args[paramIdx]\<close> is bounds-checked by the host.
\<close>

fun bindParameters ::
  "string list \<Rightarrow> nat \<Rightarrow> object list \<Rightarrow> nat \<Rightarrow> state \<Rightarrow> unit res \<times> state" where
  "bindParameters [] paramIdx args env st = (Ok (), st)"
| "bindParameters (param # params) paramIdx args env st =
     (if paramIdx < length args then
        bindParameters params (Suc paramIdx) args env (Set_env env param (args ! paramIdx) st)
      else (Fault IndexOutOfRange, st))"

definition extendedFunctionEnv ::
  "string list \<Rightarrow> nat \<Rightarrow> object list \<Rightarrow> state \<Rightarrow> nat res \<times> state" where
  "extendedFunctionEnv parameters fenv args st =
     (case NewEnclosedEnvironment fenv st of
        (env, st1) \<Rightarrow>
          and_then (bindParameters parameters 0 args env st1) (\<lambda>_ st2. (Ok env, st2)))"

definition evalIdentifier :: "host \<Rightarrow> nat \<Rightarrow> string \<Rightarrow> state \<Rightarrow> object res \<times> state" where
  "evalIdentifier h env name st =
     (case Get (envs st) env name of
        Some val \<Rightarrow> (Ok val, st)
      | None \<Rightarrow>
          (case builtins h name of
             Some b \<Rightarrow> (Ok (Builtin b), st)
           | None \<Rightarrow> (Ok (newError (''identifier not found: '' @ name)), st)))"

subsection \<open>The iteration and the recursion of \<open>Eval\<close>\<close>

text \<open>
  The functions that call \<open>Eval\<close> take it as the argument \<open>ev\<close>; \<open>Eval\<close> below
  passes itself, with one unit less of recursion depth.
\<close>

type_synonym evaluator = "node \<Rightarrow> nat \<Rightarrow> state \<Rightarrow> object res \<times> state"

fun evalExpressionsLoop ::
  "evaluator \<Rightarrow> node list \<Rightarrow> nat \<Rightarrow> object list \<Rightarrow> state \<Rightarrow> object list res \<times> state" where
  "evalExpressionsLoop ev [] env result st = (Ok result, st)"
| "evalExpressionsLoop ev (e # exps) env result st =
     and_then (ev e env st) (\<lambda>evaluated st1.
       if isError evaluated then (Ok [evaluated], st1)
       else evalExpressionsLoop ev exps env (result @ [evaluated]) st1)"

definition evalExpressions ::
  "evaluator \<Rightarrow> node list \<Rightarrow> nat \<Rightarrow> state \<Rightarrow> object list res \<times> state" where
  "evalExpressions ev exps env st = evalExpressionsLoop ev exps env [] st"

fun programLoop ::
  "evaluator \<Rightarrow> node list \<Rightarrow> nat \<Rightarrow> object \<Rightarrow> state
     \<Rightarrow> (object, object) loop_exit res \<times> state" where
  "programLoop ev [] env lastv st = (Ok (Completed lastv), st)"
| "programLoop ev (stmt # stmts) env lastv st =
     and_then (ev stmt env st) (\<lambda>last1 st1.
       case last1 of
         ReturnValue _ v \<Rightarrow> (Ok (Returned v), st1)
       | Error _ \<Rightarrow> (Ok (Returned last1), st1)
       | _ \<Rightarrow> programLoop ev stmts env last1 st1)"

definition evalProgram :: "evaluator \<Rightarrow> node list \<Rightarrow> nat \<Rightarrow> state \<Rightarrow> object res \<times> state" where
  "evalProgram ev stmts env st =
     and_then (programLoop ev stmts env GoNil st) (\<lambda>r st1.
       case r of Returned v \<Rightarrow> (Ok v, st1) | Completed lastv \<Rightarrow> (Ok lastv, st1))"

fun blockLoop ::
  "evaluator \<Rightarrow> node list \<Rightarrow> nat \<Rightarrow> object \<Rightarrow> state
     \<Rightarrow> (object, object) loop_exit res \<times> state" where
  "blockLoop ev [] env lastv st = (Ok (Completed lastv), st)"
| "blockLoop ev (stmt # stmts) env lastv st =
     and_then (ev stmt env st) (\<lambda>last1 st1.
       case Type last1 of
         None \<Rightarrow> (Fault NilDereference, st1)
       | Some t \<Rightarrow>
           if t = ERROR_OBJ \<or> t = RETURN_VALUE_OBJ then (Ok (Returned last1), st1)
           else blockLoop ev stmts env last1 st1)"

definition evalBlockStatement ::
  "evaluator \<Rightarrow> node list \<Rightarrow> nat \<Rightarrow> state \<Rightarrow> object res \<times> state" where
  "evalBlockStatement ev stmts env st =
     and_then (blockLoop ev stmts env GoNil st) (\<lambda>r st1.
       case r of Returned v \<Rightarrow> (Ok v, st1) | Completed lastv \<Rightarrow> (Ok lastv, st1))"

definition evalIfExpression ::
  "evaluator \<Rightarrow> node \<Rightarrow> node list \<Rightarrow> node list option \<Rightarrow> nat \<Rightarrow> state
     \<Rightarrow> object res \<times> state" where
  "evalIfExpression ev cond consequence alternative env st =
     and_then (ev cond env st) (\<lambda>condition st1.
       if isError condition then (Ok condition, st1)
       else if isTruthy condition then ev (BlockStatement consequence) env st1
       else (case alternative of
               Some alt \<Rightarrow> ev (BlockStatement alt) env st1
             | None \<Rightarrow> (Ok NULL, st1)))"

text \<open>
  The loop of \<open>evalHashLiteral\<close> over the entries in the order the host visits them;
  \<open>pairs\<close> is the map under construction.
\<close>

fun hashLoop ::
  "(string \<Rightarrow> 64 word) \<Rightarrow> evaluator \<Rightarrow> (node \<times> node) list \<Rightarrow> nat
     \<Rightarrow> (hash_key \<times> object \<times> object) list \<Rightarrow> state
     \<Rightarrow> (object, (hash_key \<times> object \<times> object) list) loop_exit res \<times> state" where
  "hashLoop sh ev [] env pairs st = (Ok (Completed pairs), st)"
| "hashLoop sh ev ((keyNode, valueNode) # rest) env pairs st =
     and_then (ev keyNode env st) (\<lambda>key st1.
       if isError key then (Ok (Returned key), st1)
       else
         (case HashKey sh key of
            None \<Rightarrow>
              (case Type key of
                 None \<Rightarrow> (Fault NilDereference, st1)
               | Some kt \<Rightarrow>
                   (Ok (Returned (newError (''unusable as hash key: '' @ type_name kt))), st1))
          | Some hashed \<Rightarrow>
              and_then (ev valueNode env st1) (\<lambda>val st2.
                if isError val then (Ok (Returned val), st2)
                else hashLoop sh ev rest env (AList.update hashed (key, val) pairs) st2)))"

definition evalHashLiteral ::
  "host \<Rightarrow> evaluator \<Rightarrow> (node \<times> node) list \<Rightarrow> nat \<Rightarrow> state \<Rightarrow> object res \<times> state" where
  "evalHashLiteral h ev entries env st =
     and_then (hashLoop (string_hash h) ev (range_order h entries) env [] st) (\<lambda>r st1.
       case r of
         Returned v \<Rightarrow> (Ok v, st1)
       | Completed pairs \<Rightarrow> (case alloc st1 of (a, st2) \<Rightarrow> (Ok (Hash a pairs), st2)))"

text \<open>
  The assignments \<open>pairs[hashed] = object.HashPair{Key: key, Value: value}\<close> that the
  loop of \<open>evalHashLiteral\<close> performs, in the order it performs them, up to the point
  where it returns or the host stops it: the same evaluations, checks and order as
  \<open>hashLoop\<close>, recording each assignment instead of performing it.
\<close>

fun hashWrites ::
  "(string \<Rightarrow> 64 word) \<Rightarrow> evaluator \<Rightarrow> (node \<times> node) list \<Rightarrow> nat \<Rightarrow> state
     \<Rightarrow> (hash_key \<times> object \<times> object) list" where
  "hashWrites sh ev [] env st = []"
| "hashWrites sh ev ((keyNode, valueNode) # rest) env st =
     (case ev keyNode env st of
        (Ok key, st1) \<Rightarrow>
          if isError key then []
          else
            (case HashKey sh key of
               None \<Rightarrow> []
             | Some hashed \<Rightarrow>
                 (case ev valueNode env st1 of
                    (Ok val, st2) \<Rightarrow>
                      if isError val then []
                      else (hashed, key, val) # hashWrites sh ev rest env st2
                  | _ \<Rightarrow> []))
      | _ \<Rightarrow> [])"

definition applyFunction ::
  "host \<Rightarrow> evaluator \<Rightarrow> object \<Rightarrow> object list \<Rightarrow> state \<Rightarrow> object res \<times> state" where
  "applyFunction h ev fn args st =
     (case fn of
        Function _ parameters body fenv \<Rightarrow>
          and_then (extendedFunctionEnv parameters fenv args st) (\<lambda>extendedEnv st1.
            and_then (ev (BlockStatement body) extendedEnv st1) (\<lambda>evaluated st2.
              (Ok (unwrapReturnValue evaluated), st2)))
      | Builtin b \<Rightarrow> builtin_fn h b args st
      | _ \<Rightarrow>
          (case Type fn of
             None \<Rightarrow> (Fault NilDereference, st)
           | Some t \<Rightarrow> (Ok (newError (''not a function: '' @ type_name t)), st)))"

text \<open>
  \<open>Eval\<close>, with the depth of its recursion bounded by the first argument: a call at
  depth 0 is \<open>OutOfFuel\<close>. A node kind whose case ends without \<open>return\<close>
  (\<open>LetStatement\<close>) reaches the final \<open>return nil\<close>.
\<close>

fun Eval :: "host \<Rightarrow> nat \<Rightarrow> node \<Rightarrow> nat \<Rightarrow> state \<Rightarrow> object res \<times> state" where
  "Eval h 0 node env st = (OutOfFuel, st)"
| "Eval h (Suc n) (ReturnStatement returnValue) env st =
     and_then (Eval h n returnValue env st) (\<lambda>val st1.
       if isError val then (Ok val, st1)
       else (case alloc st1 of (a, st2) \<Rightarrow> (Ok (ReturnValue a val), st2)))"
| "Eval h (Suc n) (BlockStatement stmts) env st = evalBlockStatement (Eval h n) stmts env st"
| "Eval h (Suc n) (IfExpression cond consequence alternative) env st =
     evalIfExpression (Eval h n) cond consequence alternative env st"
| "Eval h (Suc n) (IntegerLiteral val) env st = (Ok (Integer val), st)"
| "Eval h (Suc n) (Program stmts) env st = evalProgram (Eval h n) stmts env st"
| "Eval h (Suc n) (BooleanLiteral val) env st = (Ok (boolean val), st)"
| "Eval h (Suc n) (ExpressionStatement expr) env st = Eval h n expr env st"
| "Eval h (Suc n) (PrefixExpression operator right) env st =
     and_then (Eval h n right env st) (\<lambda>right1 st1.
       if isError right1 then (Ok right1, st1)
       else (evalPrefixExpression operator right1, st1))"
| "Eval h (Suc n) (InfixExpression left operator right) env st =
     and_then (Eval h n left env st) (\<lambda>left1 st1.
       if isError left1 then (Ok left1, st1)
       else and_then (Eval h n right env st1) (\<lambda>right1 st2.
         if isError right1 then (Ok right1, st2)
         else evalInfixExpression left1 operator right1 st2))"
| "Eval h (Suc n) (LetStatement name valueNode) env st =
     and_then (Eval h n valueNode env st) (\<lambda>val st1.
       if isError val then (Ok val, st1)
       else (Ok GoNil, Set_env env name val st1))"
| "Eval h (Suc n) (Identifier name) env st = evalIdentifier h env name st"
| "Eval h (Suc n) (StringLiteral val) env st =
     (case alloc st of (a, st1) \<Rightarrow> (Ok (String a val), st1))"
| "Eval h (Suc n) (FunctionLiteral parameters body) env st =
     (case alloc st of (a, st1) \<Rightarrow> (Ok (Function a parameters body env), st1))"
| "Eval h (Suc n) (CallExpression function arguments) env st =
     and_then (Eval h n function env st) (\<lambda>function1 st1.
       if isError function1 then (Ok function1, st1)
       else and_then (evalExpressions (Eval h n) arguments env st1) (\<lambda>args st2.
         if length args = 1 \<and> isError (args ! 0) then (Ok (args ! 0), st2)
         else applyFunction h (Eval h n) function1 args st2))"
| "Eval h (Suc n) (ArrayLiteral elementNodes) env st =
     and_then (evalExpressions (Eval h n) elementNodes env st) (\<lambda>elements st1.
       if length elements = 1 \<and> isError (elements ! 0) then (Ok (elements ! 0), st1)
       else (case alloc st1 of (a, st2) \<Rightarrow> (Ok (Array a elements), st2)))"
| "Eval h (Suc n) (IndexExpression left index) env st =
     and_then (Eval h n left env st) (\<lambda>left1 st1.
       if isError left1 then (Ok left1, st1)
       else and_then (Eval h n index env st1) (\<lambda>index1 st2.
         if isError index1 then (Ok index1, st2)
         else (evalIndexExpression left1 index1, st2)))"
| "Eval h (Suc n) (HashLiteral entries) env st = evalHashLiteral h (Eval h n) entries env st"

subsection \<open>A concrete host and start state\<close>

text \<open>
  A host without built-ins, whose \<open>range\<close> visits the entries of a hash literal in the
  order they were written; one that visits them in the opposite order; and the state a
  caller starts from: one root environment at address 0, no object allocated.
\<close>

definition example_host :: host where
  "example_host =
     \<lparr>builtins = (\<lambda>_. None), builtin_fn = (\<lambda>_ _ st. (Ok NULL, st)),
      string_hash = (\<lambda>s. of_nat (length s)), range_order = (\<lambda>entries. entries)\<rparr>"

definition reversing_host :: host where
  "reversing_host = example_host\<lparr>range_order := rev\<rparr>"

definition root_state :: state where
  "root_state = \<lparr>envs = [\<lparr>store = Map.empty, outer = None\<rparr>], next_ref = 0\<rparr>"

section \<open>Properties\<close>

subsection \<open>Sequencing\<close>

lemma and_then_Ok [simp]: "and_then (Ok v, st) f = f v st"
  by (simp add: and_then_def)

lemma and_then_Fault [simp]: "and_then (Fault e, st) f = (Fault e, st)"
  by (simp add: and_then_def)

lemma and_then_OutOfFuel [simp]: "and_then (OutOfFuel, st) f = (OutOfFuel, st)"
  by (simp add: and_then_def)

lemma and_then_eq_Ok:
  "and_then m f = (Ok r, st') \<longleftrightarrow> (\<exists>v st1. m = (Ok v, st1) \<and> f v st1 = (Ok r, st'))"
  by (cases m; cases "fst m") (auto simp: and_then_def)

lemma fst_and_then_Fault: "fst m = Fault e \<Longrightarrow> fst (and_then m f) = Fault e"
  by (cases m) (simp add: and_then_def)

subsection \<open>Array indexing\<close>

lemma sint_max_index:
  assumes "n < 2 ^ 63"
  shows "sint (word_of_int (int n - 1) :: 64 word) = int n - 1"
proof -
  define k where "k = int n - 1"
  have "int n < 2 ^ 63"
    using assms by (metis of_nat_less_iff of_nat_numeral of_nat_power)
  then have "signed_take_bit 63 k = k"
    by (intro signed_take_bit_int_eq_self) (auto simp: k_def)
  moreover have "sint (word_of_int k :: 64 word) = signed_take_bit 63 k"
    by (simp add: sint_sbintrunc')
  ultimately show ?thesis by (simp only: k_def)
qed

text \<open>
  C5: for an Array of length \<open>n\<close> (a host slice, so \<open>n\<close> fits the host's \<open>int\<close>) and an
  Integer index \<open>i\<close>, indexing returns the element at position \<open>i\<close> when
  \<open>0 \<le> i \<le> n - 1\<close>, and the \<open>NULL\<close> singleton, which is not an error, when \<open>i < 0\<close>
  or \<open>i \<ge> n\<close>.
\<close>

theorem array_index_in_and_out_of_range:
  assumes "length elements < 2 ^ 63"
  shows "(0 \<le> sint i \<and> sint i \<le> int (length elements) - 1 \<longrightarrow>
           evalIndexExpression (Array a elements) (Integer i) = Ok (elements ! nat (sint i)))
       \<and> (sint i < 0 \<or> int (length elements) \<le> sint i \<longrightarrow>
           evalIndexExpression (Array a elements) (Integer i) = Ok NULL \<and> \<not> isError NULL)"
  using sint_max_index [OF assms]
  by (auto simp: evalIndexExpression_def evalArrayIndexExpression_def Let_def NULL_def)

theorem array_index_witness:
  "evalIndexExpression (Array 0 [Integer 1, Integer 2, Integer 3]) (Integer 2) = Ok (Integer 3)
   \<and> evalIndexExpression (Array 0 [Integer 1, Integer 2, Integer 3]) (Integer 5) = Ok NULL
   \<and> evalIndexExpression (Array 0 [Integer 1, Integer 2, Integer 3]) (Integer (- 1)) = Ok NULL"
  using array_index_in_and_out_of_range [of "[Integer 1, Integer 2, Integer 3]" 2 0]
    array_index_in_and_out_of_range [of "[Integer 1, Integer 2, Integer 3]" 5 0]
    array_index_in_and_out_of_range [of "[Integer 1, Integer 2, Integer 3]" "- 1" 0]
  by simp

subsection \<open>Integer arithmetic\<close>

lemma quo_magnitude:
  fixes A B :: int
  shows "\<bar>sgn A * sgn B * (\<bar>A\<bar> div \<bar>B\<bar>)\<bar> \<le> \<bar>A\<bar> div \<bar>B\<bar>"
  by (cases "A = 0"; cases "B = 0") (simp_all add: abs_mult abs_sgn_eq pos_imp_zdiv_nonneg_iff)

lemma div_abs_le:
  fixes A B :: int
  shows "\<bar>A\<bar> div \<bar>B\<bar> \<le> \<bar>A\<bar>"
  by (metis abs_0 abs_ge_zero div_by_0 div_by_1 linorder_not_less
    zabs_less_one_iff zdiv_mono2)

lemma div_abs_half:
  fixes A B :: int
  assumes "2 \<le> \<bar>B\<bar>"
  shows "2 * (\<bar>A\<bar> div \<bar>B\<bar>) \<le> \<bar>A\<bar>"
proof -
  have "\<bar>A\<bar> div \<bar>B\<bar> \<le> \<bar>A\<bar> div 2"
    using assms by (intro zdiv_mono2) auto
  then show ?thesis by linarith
qed

lemma quo_in_range:
  fixes A B :: int
  assumes A: "- (2 ^ 63) \<le> A" "A < 2 ^ 63"
    and B: "- (2 ^ 63) \<le> B" "B < 2 ^ 63"
    and ov: "\<not> (A = - (2 ^ 63) \<and> B = - 1)"
  shows "- (2 ^ 63) \<le> sgn A * sgn B * (\<bar>A\<bar> div \<bar>B\<bar>)
       \<and> sgn A * sgn B * (\<bar>A\<bar> div \<bar>B\<bar>) < 2 ^ 63"
proof (cases "A = - (2 ^ 63)")
  case False
  then have "\<bar>A\<bar> < 2 ^ 63" using A by linarith
  with quo_magnitude [of A B] div_abs_le [of A B] show ?thesis by linarith
next
  case True
  note A63 = this
  show ?thesis
  proof (cases "2 \<le> \<bar>B\<bar>")
    case True
    define d where "d = \<bar>A\<bar> div \<bar>B\<bar>"
    define q where "q = sgn A * sgn B * d"
    have "\<bar>A\<bar> = 2 ^ 63" using A63 by simp
    with div_abs_half [OF True, of A] have "2 * d \<le> 2 ^ 63" by (simp add: d_def)
    moreover have "\<bar>q\<bar> \<le> d" using quo_magnitude [of A B] by (simp add: q_def d_def)
    ultimately have "- (2 ^ 63) \<le> q \<and> q < 2 ^ 63" by simp linarith
    then show ?thesis by (simp only: q_def d_def)
  next
    case False
    then consider "B = 0" | "B = 1" | "B = - 1" by linarith
    then show ?thesis
    proof cases
      case 1 then show ?thesis by simp
    next
      case 2 then show ?thesis using A63 by simp
    next
      case 3 then show ?thesis using ov A63 by simp
    qed
  qed
qed

lemma sint_int64_quo:
  assumes "\<not> (sint a = - (2 ^ 63) \<and> sint b = - 1)"
  shows "sint (int64_quo a b) = sgn (sint a) * sgn (sint b) * (\<bar>sint a\<bar> div \<bar>sint b\<bar>)"
proof -
  define q where "q = sgn (sint a) * sgn (sint b) * (\<bar>sint a\<bar> div \<bar>sint b\<bar>)"
  have "- (2 ^ 63) \<le> sint a" "sint a < 2 ^ 63" "- (2 ^ 63) \<le> sint b" "sint b < 2 ^ 63"
    using sint_ge [of a] sint_lt [of a] sint_ge [of b] sint_lt [of b] by simp_all
  from quo_in_range [OF this assms]
  have r: "- (2 ^ 63) \<le> q" "q < 2 ^ 63" by (simp_all only: q_def)
  have "sint (word_of_int q :: 64 word) = signed_take_bit 63 q"
    by (simp add: sint_sbintrunc')
  also have "\<dots> = q" using r by (rule signed_take_bit_int_eq_self)
  finally show ?thesis
    by (simp only: int64_quo_def signed_divide_int_def q_def)
qed

text \<open>
  C6: for all signed 64-bit Integers \<open>a\<close> and \<open>b\<close>, the infix operators \<open>+\<close>, \<open>-\<close>, \<open>*\<close>
  yield the Integer of the host's (wrapping) arithmetic result; for \<open>b \<noteq> 0\<close>, \<open>a / b\<close>
  yields the Integer of the quotient truncated toward zero (the sign is the product of
  the signs, the magnitude is the floor of the quotient of the magnitudes), read back
  as that very number except for the one quotient that does not fit 64 bits; and
  \<open>a / 0\<close> is a host-level fault, not an \<open>Error\<close> object.
\<close>

theorem integer_infix_arithmetic:
  "evalInfixExpression (Integer a) ''+'' (Integer b) st = (Ok (Integer (a + b)), st)
   \<and> evalInfixExpression (Integer a) ''-'' (Integer b) st = (Ok (Integer (a - b)), st)
   \<and> evalInfixExpression (Integer a) ''*'' (Integer b) st = (Ok (Integer (a * b)), st)
   \<and> (b \<noteq> 0 \<longrightarrow>
        evalInfixExpression (Integer a) ''/'' (Integer b) st =
          (Ok (Integer (word_of_int (sgn (sint a) * sgn (sint b) * (\<bar>sint a\<bar> div \<bar>sint b\<bar>)))), st))
   \<and> (b \<noteq> 0 \<and> \<not> (sint a = - (2 ^ 63) \<and> sint b = - 1) \<longrightarrow>
        (\<exists>q. evalInfixExpression (Integer a) ''/'' (Integer b) st = (Ok (Integer q), st)
           \<and> sint q = sgn (sint a) * sgn (sint b) * (\<bar>sint a\<bar> div \<bar>sint b\<bar>)))
   \<and> evalInfixExpression (Integer a) ''/'' (Integer 0) st = (Fault DivideByZero, st)"
  using sint_int64_quo [of a b]
  by (simp add: evalInfixExpression_def evalIntegerInfixExpression_def integer_def
      int64_quo_def signed_divide_int_def)

theorem integer_infix_arithmetic_witness:
  "evalInfixExpression (Integer (- 7)) ''/'' (Integer 2) root_state
     = (Ok (Integer (- 3)), root_state)
   \<and> evalInfixExpression (Integer 7) ''/'' (Integer (- 2)) root_state
     = (Ok (Integer (- 3)), root_state)"
  using integer_infix_arithmetic [of "- 7" 2 root_state]
    integer_infix_arithmetic [of 7 "- 2" root_state]
  by simp

subsection \<open>Truthiness\<close>

lemma double_bang: "evalBangOperator (evalBangOperator v) = boolean (isTruthy v)"
  by (simp add: evalBangOperator_def boolean_def isTruthy_def TRUE_def FALSE_def NULL_def)

lemma not_isError_bang: "\<not> isError (evalBangOperator v)"
  by (simp add: evalBangOperator_def TRUE_def FALSE_def)

text \<open>
  C8: for every value \<open>v\<close> (what an operand evaluates to, when it is not an error, which
  is returned at once), evaluating \<open>!!v\<close> yields \<open>TRUE\<close> if and only if \<open>v\<close> is neither
  the \<open>FALSE\<close> nor the \<open>NULL\<close> singleton, and \<open>FALSE\<close> otherwise; every Integer and every
  String is truthy; and this is the predicate \<open>isTruthy\<close> by which an if-expression
  chooses its branch.
\<close>

theorem double_negation_is_truthiness:
  assumes "Eval h n e env st = (Ok v, st')" and "\<not> isError v"
  shows "Eval h (Suc (Suc n)) (PrefixExpression ''!'' (PrefixExpression ''!'' e)) env st
           = (Ok (if v = FALSE \<or> v = NULL then FALSE else TRUE), st')
       \<and> evalPrefixExpression ''!'' v = Ok (evalBangOperator v)
       \<and> evalPrefixExpression ''!'' (evalBangOperator v) = Ok (boolean (isTruthy v))
       \<and> (isTruthy v \<longleftrightarrow> v \<noteq> FALSE \<and> v \<noteq> NULL)
       \<and> isTruthy (Integer i) \<and> isTruthy (String a s)
       \<and> evalIfExpression (Eval h n) e consequence alternative env st
           = (if isTruthy v then Eval h n (BlockStatement consequence) env st'
              else (case alternative of
                      Some alt \<Rightarrow> Eval h n (BlockStatement alt) env st'
                    | None \<Rightarrow> (Ok NULL, st')))"
  using assms
  by (simp add: evalPrefixExpression_def double_bang not_isError_bang evalIfExpression_def)
     (simp add: boolean_def isTruthy_def TRUE_def FALSE_def NULL_def)

theorem double_negation_witness:
  "Eval example_host (Suc (Suc (Suc 0)))
     (PrefixExpression ''!'' (PrefixExpression ''!'' (IntegerLiteral 0))) 0 root_state
     = (Ok TRUE, root_state)
   \<and> Eval example_host (Suc (Suc (Suc 0)))
     (PrefixExpression ''!'' (PrefixExpression ''!'' (BooleanLiteral False))) 0 root_state
     = (Ok FALSE, root_state)"
proof -
  have a: "Eval example_host (Suc 0) (IntegerLiteral 0) 0 root_state = (Ok (Integer 0), root_state)"
    by simp
  have b: "Eval example_host (Suc 0) (BooleanLiteral False) 0 root_state = (Ok FALSE, root_state)"
    by (simp add: boolean_def)
  have na: "\<not> isError (Integer 0)" and nb: "\<not> isError FALSE"
    by (simp_all add: FALSE_def)
  from double_negation_is_truthiness [OF a na, THEN conjunct1]
    double_negation_is_truthiness [OF b nb, THEN conjunct1]
  show ?thesis by (simp add: FALSE_def NULL_def)
qed

subsection \<open>Index expressions\<close>

text \<open>
  C9: for every index expression whose container evaluates to an Array and whose index
  evaluates to a value that is not an Integer (a value has a type tag: it is not the
  host's nil), the result is the \<open>Error\<close> with the message
  \<open>index operator not supported: ARRAY\<close>: the message names the container's type and
  is the same whatever the type \<open>t\<close> of the index.
\<close>

theorem non_integer_index_names_the_array:
  assumes "Type index = Some t" and "t \<noteq> INTEGER_OBJ"
  shows "evalIndexExpression (Array a elements) index
           = Ok (Error ''index operator not supported: ARRAY'')
       \<and> (Eval h n left env st = (Ok (Array a elements), st1)
            \<and> Eval h n idx env st1 = (Ok index, st2) \<and> \<not> isError index \<longrightarrow>
          Eval h (Suc n) (IndexExpression left idx) env st
            = (Ok (Error ''index operator not supported: ARRAY''), st2))"
  using assms by (simp add: evalIndexExpression_def newError_def)

theorem non_integer_index_witness:
  "Eval example_host 3
     (IndexExpression (ArrayLiteral [IntegerLiteral 1, IntegerLiteral 2]) (BooleanLiteral True))
     0 root_state
   = (Ok (Error ''index operator not supported: ARRAY''), root_state\<lparr>next_ref := 1\<rparr>)"
proof -
  have l: "Eval example_host 2 (ArrayLiteral [IntegerLiteral 1, IntegerLiteral 2]) 0 root_state
             = (Ok (Array 0 [Integer 1, Integer 2]), root_state\<lparr>next_ref := 1\<rparr>)"
    by (simp add: numeral_2_eq_2 evalExpressions_def alloc_def root_state_def)
  have i: "Eval example_host 2 (BooleanLiteral True) 0 (root_state\<lparr>next_ref := 1\<rparr>)
             = (Ok (Boolean True), root_state\<lparr>next_ref := 1\<rparr>)"
    by (simp add: numeral_2_eq_2 boolean_def TRUE_def)
  from non_integer_index_names_the_array [of "Boolean True" BOOLEAN_OBJ 0 "[Integer 1, Integer 2]"
      example_host 2 "ArrayLiteral [IntegerLiteral 1, IntegerLiteral 2]" 0 root_state
      "root_state\<lparr>next_ref := 1\<rparr>" "BooleanLiteral True" "root_state\<lparr>next_ref := 1\<rparr>"] l i
  show ?thesis by (simp add: numeral_3_eq_3)
qed

subsection \<open>Equality of values of different kinds\<close>

text \<open>
  C2, as stated, fails: \<open>true == (if (false) {})\<close> compares a Boolean with \<open>NULL\<close>, and
  the first case of the \<open>switch\<close> in \<open>evalInfixExpression\<close> answers with the
  type-mismatch error before the operator is looked at.
\<close>

theorem equality_of_different_kinds_counterexample:
  "Eval example_host 3
     (InfixExpression (BooleanLiteral True) ''=='' (IfExpression (BooleanLiteral False) [] None))
     0 root_state
   = (Ok (Error ''type mismatch: BOOLEAN == NULL''), root_state)
   \<and> evalInfixExpression TRUE ''=='' NULL root_state \<noteq> (Ok (boolean (TRUE = NULL)), root_state)"
  by (simp add: numeral_3_eq_3 numeral_2_eq_2 boolean_def TRUE_def FALSE_def NULL_def evalIfExpression_def
      isTruthy_def evalInfixExpression_def newError_def)

text \<open>
  C2, amended: for operands that have a type tag, when the tags differ the result is
  the type-mismatch error for every operator, \<open>==\<close> and \<open>!=\<close> included; when the tags
  are the same and not \<open>INTEGER\<close>, \<open>==\<close> and \<open>!=\<close> yield the Boolean of the identity
  comparison of the operands.
\<close>

theorem identity_equality_only_within_a_kind:
  assumes "Type left = Some lt" and "Type right = Some rt"
  shows "(lt \<noteq> rt \<longrightarrow>
            evalInfixExpression left operator right st
              = (Ok (Error (''type mismatch: '' @ type_name lt @ '' '' @ operator @ '' ''
                            @ type_name rt)), st))
       \<and> (lt = rt \<and> lt \<noteq> INTEGER_OBJ \<longrightarrow>
            evalInfixExpression left ''=='' right st = (Ok (boolean (left = right)), st)
          \<and> evalInfixExpression left ''!='' right st = (Ok (boolean (left \<noteq> right)), st))"
  using assms by (simp add: evalInfixExpression_def newError_def)

theorem identity_equality_witness:
  "evalInfixExpression (Boolean True) ''=='' (Boolean True) root_state = (Ok TRUE, root_state)
   \<and> evalInfixExpression (String 0 ''a'') ''=='' (String 1 ''a'') root_state = (Ok FALSE, root_state)
   \<and> evalInfixExpression (Boolean True) ''!='' Null root_state
       = (Ok (Error ''type mismatch: BOOLEAN != NULL''), root_state)"
  using identity_equality_only_within_a_kind [of "Boolean True" BOOLEAN_OBJ "Boolean True" BOOLEAN_OBJ "''==''" root_state]
   identity_equality_only_within_a_kind [of "String 0 ''a''" STRING_OBJ "String 1 ''a''" STRING_OBJ "''==''" root_state]
   identity_equality_only_within_a_kind [of "Boolean True" BOOLEAN_OBJ "Null" NULL_OBJ "''!=''" root_state]
  by (simp add: boolean_def)

subsection \<open>Calls whose argument count differs from the parameter count\<close>

lemma bindParameters_enough:
  "env < length (envs st) \<Longrightarrow> i + length ps \<le> length args \<Longrightarrow>
   bindParameters ps i args env st
     = (Ok (), st\<lparr>envs := (envs st)[env := (envs st ! env)
                \<lparr>store := (store (envs st ! env))(ps [\<mapsto>] drop i args)\<rparr>]\<rparr>)"
proof (induction ps arbitrary: i st)
  case Nil
  then show ?case by simp
next
  case (Cons p ps)
  from Cons.prems have i: "i < length args" by simp
  then have d: "drop i args = args ! i # drop (Suc i) args"
    by (simp add: Cons_nth_drop_Suc)
  have e: "env < length (envs (Set_env env p (args ! i) st))"
    using Cons.prems by (simp add: Set_env_def)
  have s: "Suc i + length ps \<le> length args" using Cons.prems by simp
  show ?case
    using i Cons.prems(1)
    by (simp add: Cons.IH [OF e s] d) (simp add: Set_env_def)
qed

lemma bindParameters_short:
  "i \<le> length args \<Longrightarrow> length args < i + length ps \<Longrightarrow>
   fst (bindParameters ps i args env st) = Fault IndexOutOfRange"
  by (induction ps arbitrary: i st) auto

lemma extendedFunctionEnv_enough:
  assumes "length ps \<le> length args"
  shows "extendedFunctionEnv ps fenv args st
    = (Ok (length (envs st)),
       st\<lparr>envs := envs st @ [\<lparr>store = Map.empty(ps [\<mapsto>] args), outer = Some fenv\<rparr>]\<rparr>)"
  using assms
  by (simp add: extendedFunctionEnv_def NewEnclosedEnvironment_def bindParameters_enough)

lemma extendedFunctionEnv_short:
  assumes "length args < length ps"
  shows "fst (extendedFunctionEnv ps fenv args st) = Fault IndexOutOfRange"
  unfolding extendedFunctionEnv_def NewEnclosedEnvironment_def prod.case
  by (rule fst_and_then_Fault, rule bindParameters_short) (use assms in simp_all)

text \<open>
  C1, as stated, fails: \<open>fn(x) { 1 }()\<close> never reads \<open>x\<close>, and the call itself fails:
  \<open>extendedFunctionEnv\<close> reads \<open>args[0]\<close> of an empty argument list, which the host
  answers with an index-out-of-range panic.
\<close>

theorem missing_arguments_counterexample:
  "fst (Eval example_host 3
          (CallExpression (FunctionLiteral [''x''] [ExpressionStatement (IntegerLiteral 1)]) [])
          0 root_state)
     = Fault IndexOutOfRange"
  by (simp add: numeral_3_eq_3 evalExpressions_def alloc_def applyFunction_def
      extendedFunctionEnv_def NewEnclosedEnvironment_def)

text \<open>
  C1, amended: a call of a function value with at least as many arguments as parameters
  does not fail in the call operation: the fresh environment, enclosed by the function's
  own, binds each parameter to the argument at its position (extra arguments are
  ignored), and the result is the unwrapped result of the body in it. With fewer
  arguments than parameters the call operation itself fails, with a host-level
  index-out-of-range fault while the call environment is built, whatever the body is.
\<close>

theorem call_with_other_argument_count:
  "(length parameters \<le> length args \<longrightarrow>
      extendedFunctionEnv parameters fenv args st
        = (Ok (length (envs st)),
           st\<lparr>envs := envs st
                  @ [\<lparr>store = Map.empty(parameters [\<mapsto>] args), outer = Some fenv\<rparr>]\<rparr>)
    \<and> applyFunction h ev (Function a parameters body fenv) args st
        = and_then
            (ev (BlockStatement body) (length (envs st))
               (st\<lparr>envs := envs st
                  @ [\<lparr>store = Map.empty(parameters [\<mapsto>] args), outer = Some fenv\<rparr>]\<rparr>))
            (\<lambda>evaluated st2. (Ok (unwrapReturnValue evaluated), st2)))
   \<and> (length args < length parameters \<longrightarrow>
        fst (extendedFunctionEnv parameters fenv args st) = Fault IndexOutOfRange
      \<and> fst (applyFunction h ev (Function a parameters body fenv) args st)
          = Fault IndexOutOfRange)"
proof (intro conjI impI)
  assume le: "length parameters \<le> length args"
  show "extendedFunctionEnv parameters fenv args st
        = (Ok (length (envs st)),
           st\<lparr>envs := envs st
                  @ [\<lparr>store = Map.empty(parameters [\<mapsto>] args), outer = Some fenv\<rparr>]\<rparr>)"
    by (rule extendedFunctionEnv_enough [OF le])
  then show "applyFunction h ev (Function a parameters body fenv) args st
        = and_then
            (ev (BlockStatement body) (length (envs st))
               (st\<lparr>envs := envs st
                  @ [\<lparr>store = Map.empty(parameters [\<mapsto>] args), outer = Some fenv\<rparr>]\<rparr>))
            (\<lambda>evaluated st2. (Ok (unwrapReturnValue evaluated), st2))"
    by (simp only: applyFunction_def object.case and_then_Ok)
next
  assume lt: "length args < length parameters"
  show s: "fst (extendedFunctionEnv parameters fenv args st) = Fault IndexOutOfRange"
    by (rule extendedFunctionEnv_short [OF lt])
  show "fst (applyFunction h ev (Function a parameters body fenv) args st)
          = Fault IndexOutOfRange"
    unfolding applyFunction_def object.case
    by (rule fst_and_then_Fault) (rule s)
qed

theorem call_with_other_argument_count_witness:
  "applyFunction example_host (Eval example_host 3)
      (Function 0 [''x''] [ExpressionStatement (Identifier ''x'')] 0)
      [Integer 7, Integer 8] root_state
     = (Ok (Integer 7),
        root_state\<lparr>envs := envs root_state
           @ [\<lparr>store = [''x'' \<mapsto> Integer 7], outer = Some 0\<rparr>]\<rparr>)
   \<and> fst (applyFunction example_host (Eval example_host 3)
      (Function 0 [''x'', ''y''] [ExpressionStatement (IntegerLiteral 1)] 0)
      [Integer 7] root_state) = Fault IndexOutOfRange"
proof -
  have b: "Eval example_host 3 (BlockStatement [ExpressionStatement (Identifier ''x'')]) (Suc 0)
     (root_state\<lparr>envs := envs root_state
           @ [\<lparr>store = [''x'' \<mapsto> Integer 7], outer = Some 0\<rparr>]\<rparr>)
    = (Ok (Integer 7), root_state\<lparr>envs := envs root_state
           @ [\<lparr>store = [''x'' \<mapsto> Integer 7], outer = Some 0\<rparr>]\<rparr>)"
    by (simp add: numeral_3_eq_3 evalBlockStatement_def evalIdentifier_def root_state_def Get.simps)
  show ?thesis
  using call_with_other_argument_count [of "[''x'']" "[Integer 7, Integer 8]" 0 root_state
      example_host "Eval example_host 3" 0 "[ExpressionStatement (Identifier ''x'')]"]
   call_with_other_argument_count [of "[''x'', ''y'']" "[Integer 7]" 0 root_state
      example_host "Eval example_host 3" 0 "[ExpressionStatement (IntegerLiteral 1)]"]
   b
  by (simp add: unwrapReturnValue_def root_state_def)
qed

subsection \<open>Let statements inside a block\<close>

text \<open>
  C3: a block with a let statement whose value evaluates without error, followed by
  further statements, should bind the name and go on (\<open>{ let a = 5; a }\<close> should yield
  Integer 5). The code does not: \<open>Eval\<close> returns the nil interface for a let statement
  and \<open>evalBlockStatement\<close> calls \<open>Type()\<close> on it. The block, alone or as the branch of
  an if-expression, ends in a nil dereference; the same statements at the top level of a
  program, where \<open>evalProgram\<close> uses a type switch, yield Integer 5.
\<close>

theorem let_inside_block_faults:
  "fst (Eval example_host 3
          (BlockStatement [LetStatement ''a'' (IntegerLiteral 5),
                           ExpressionStatement (Identifier ''a'')])
          0 root_state)
     = Fault NilDereference
   \<and> fst (Eval example_host 6
          (Program [ExpressionStatement (IfExpression (BooleanLiteral True)
             [LetStatement ''a'' (IntegerLiteral 5), ExpressionStatement (Identifier ''a'')]
             None)])
          0 root_state)
     = Fault NilDereference
   \<and> fst (Eval example_host 3
          (Program [LetStatement ''a'' (IntegerLiteral 5),
                    ExpressionStatement (Identifier ''a'')])
          0 root_state)
     = Ok (Integer 5)"
  by code_simp

subsection \<open>Statement sequences\<close>

lemma blockLoop_Cons_Completed:
  "blockLoop ev (s # ss) env l0 st = (Ok (Completed l), st') \<longleftrightarrow>
   (\<exists>v st1 t. ev s env st = (Ok v, st1) \<and> Type v = Some t \<and> t \<noteq> ERROR_OBJ
      \<and> t \<noteq> RETURN_VALUE_OBJ \<and> blockLoop ev ss env v st1 = (Ok (Completed l), st'))"
  by (auto simp: and_then_eq_Ok split: option.splits)

lemma programLoop_Cons_plain:
  "ev s env st = (Ok v, st1) \<Longrightarrow> \<not> isError v \<Longrightarrow> Type v \<noteq> Some RETURN_VALUE_OBJ \<Longrightarrow>
   programLoop ev (s # ss) env l0 st = programLoop ev ss env v st1"
  by (cases v) simp_all

lemma programLoop_Cons_Completed:
  "programLoop ev (s # ss) env l0 st = (Ok (Completed l), st') \<longleftrightarrow>
   (\<exists>v st1. ev s env st = (Ok v, st1) \<and> \<not> isError v \<and> Type v \<noteq> Some RETURN_VALUE_OBJ
      \<and> programLoop ev ss env v st1 = (Ok (Completed l), st'))"
proof
  assume "programLoop ev (s # ss) env l0 st = (Ok (Completed l), st')"
  then obtain v st1 where e: "ev s env st = (Ok v, st1)"
    and r: "(case v of
               ReturnValue _ x \<Rightarrow> (Ok (Returned x), st1)
             | Error _ \<Rightarrow> (Ok (Returned v), st1)
             | _ \<Rightarrow> programLoop ev ss env v st1) = (Ok (Completed l), st')"
    by (auto simp: and_then_eq_Ok)
  from r have "\<not> isError v \<and> Type v \<noteq> Some RETURN_VALUE_OBJ
      \<and> programLoop ev ss env v st1 = (Ok (Completed l), st')"
    by (cases v) simp_all
  with e show "\<exists>v st1. ev s env st = (Ok v, st1) \<and> \<not> isError v
      \<and> Type v \<noteq> Some RETURN_VALUE_OBJ
      \<and> programLoop ev ss env v st1 = (Ok (Completed l), st')"
    by blast
next
  assume "\<exists>v st1. ev s env st = (Ok v, st1) \<and> \<not> isError v \<and> Type v \<noteq> Some RETURN_VALUE_OBJ
      \<and> programLoop ev ss env v st1 = (Ok (Completed l), st')"
  then obtain v st1 where e: "ev s env st = (Ok v, st1)" "\<not> isError v"
      "Type v \<noteq> Some RETURN_VALUE_OBJ"
    and l: "programLoop ev ss env v st1 = (Ok (Completed l), st')"
    by blast
  from programLoop_Cons_plain [where ev = ev, OF e] l
  show "programLoop ev (s # ss) env l0 st = (Ok (Completed l), st')" by simp
qed

lemma blockLoop_append:
  "blockLoop ev pre env l0 st = (Ok (Completed l1), st1) \<Longrightarrow>
   blockLoop ev (pre @ rest) env l0 st = blockLoop ev rest env l1 st1"
proof (induction pre arbitrary: l0 st)
  case Nil
  then show ?case by simp
next
  case (Cons s pre)
  from Cons.prems obtain v st' t where
    e: "ev s env st = (Ok v, st')" "Type v = Some t" "t \<noteq> ERROR_OBJ" "t \<noteq> RETURN_VALUE_OBJ"
    and l: "blockLoop ev pre env v st' = (Ok (Completed l1), st1)"
    unfolding blockLoop_Cons_Completed by blast
  show ?case using e Cons.IH [OF l] by simp
qed

lemma programLoop_append:
  "programLoop ev pre env l0 st = (Ok (Completed l1), st1) \<Longrightarrow>
   programLoop ev (pre @ rest) env l0 st = programLoop ev rest env l1 st1"
proof (induction pre arbitrary: l0 st)
  case Nil
  then show ?case by simp
next
  case (Cons s pre)
  from Cons.prems obtain v st' where
    e: "ev s env st = (Ok v, st')" "\<not> isError v" "Type v \<noteq> Some RETURN_VALUE_OBJ"
    and l: "programLoop ev pre env v st' = (Ok (Completed l1), st1)"
    unfolding programLoop_Cons_Completed by blast
  show ?case
    using programLoop_Cons_plain [where ev = ev, OF e, of "pre @ rest" l0] Cons.IH [OF l] by simp
qed

lemma programLoop_snoc:
  "programLoop ev (pre @ [s]) env l0 st = (Ok (Completed l), st') \<Longrightarrow>
   \<exists>l1 st1. programLoop ev pre env l0 st = (Ok (Completed l1), st1)
     \<and> ev s env st1 = (Ok l, st') \<and> \<not> isError l"
proof (induction pre arbitrary: l0 st)
  case Nil
  then show ?case unfolding append_Nil programLoop_Cons_Completed by auto
next
  case (Cons p pre)
  from Cons.prems obtain v st1 where
    e: "ev p env st = (Ok v, st1)" "\<not> isError v" "Type v \<noteq> Some RETURN_VALUE_OBJ"
    and l: "programLoop ev (pre @ [s]) env v st1 = (Ok (Completed l), st')"
    unfolding append_Cons programLoop_Cons_Completed by blast
  from Cons.IH [OF l] obtain l1 st2 where
    i: "programLoop ev pre env v st1 = (Ok (Completed l1), st2)"
       "ev s env st2 = (Ok l, st')" "\<not> isError l"
    by blast
  show ?case
    using programLoop_Cons_plain [where ev = ev, OF e, of pre l0] i by simp
qed

lemma Eval_LetStatement_result:
  assumes "Eval h n (LetStatement name e) env st = (Ok l, st')" and "\<not> isError l"
  shows "l = GoNil"
proof (cases n)
  case 0
  with assms show ?thesis by simp
next
  case (Suc m)
  with assms show ?thesis by (auto simp: and_then_eq_Ok split: if_splits)
qed

subsection \<open>Return signals\<close>

text \<open>
  C4: a \<open>ReturnValue\<close> that a statement of a block produces (after the statements
  \<open>pre\<close> before it ran through) is what the block returns, as it is, and the statements
  after it are not run; an if-expression whose branch produced it passes it on as it
  is to the block around it; it is unwrapped to its inner value by a function
  application whose body produced it, and by the program loop at top level; so the
  program \<open>return e;\<close> yields what \<open>e\<close> evaluates to.
\<close>

theorem return_signal_propagation:
  "(blockLoop ev pre env GoNil st = (Ok (Completed l), st1)
      \<and> ev stmt env st1 = (Ok (ReturnValue a v), st2) \<longrightarrow>
    evalBlockStatement ev (pre @ stmt # rest) env st = (Ok (ReturnValue a v), st2))
   \<and> (programLoop ev pre env GoNil st = (Ok (Completed l), st1)
      \<and> ev stmt env st1 = (Ok (ReturnValue a v), st2) \<longrightarrow>
    evalProgram ev (pre @ stmt # rest) env st = (Ok v, st2))
   \<and> (extendedFunctionEnv parameters fenv args st = (Ok extendedEnv, st1)
      \<and> ev (BlockStatement body) extendedEnv st1 = (Ok (ReturnValue a v), st2) \<longrightarrow>
    applyFunction h ev (Function f parameters body fenv) args st = (Ok v, st2))
   \<and> (Eval h n e env st = (Ok v, st1) \<and> \<not> isError v \<longrightarrow>
    Eval h (Suc (Suc n)) (Program [ReturnStatement e]) env st
      = (Ok v, st1\<lparr>next_ref := Suc (next_ref st1)\<rparr>))
   \<and> (ev cond env st = (Ok c, st1) \<and> \<not> isError c \<and> isTruthy c
      \<and> ev (BlockStatement consequence) env st1 = (Ok (ReturnValue a v), st2) \<longrightarrow>
    evalIfExpression ev cond consequence alternative env st = (Ok (ReturnValue a v), st2))"
proof (intro conjI impI; elim conjE)
  assume "ev cond env st = (Ok c, st1)" and "\<not> isError c" and "isTruthy c"
    and "ev (BlockStatement consequence) env st1 = (Ok (ReturnValue a v), st2)"
  then show "evalIfExpression ev cond consequence alternative env st
      = (Ok (ReturnValue a v), st2)"
    by (simp add: evalIfExpression_def)
next
  assume "blockLoop ev pre env GoNil st = (Ok (Completed l), st1)"
    and "ev stmt env st1 = (Ok (ReturnValue a v), st2)"
  then show "evalBlockStatement ev (pre @ stmt # rest) env st = (Ok (ReturnValue a v), st2)"
    by (simp add: evalBlockStatement_def blockLoop_append)
next
  assume "programLoop ev pre env GoNil st = (Ok (Completed l), st1)"
    and "ev stmt env st1 = (Ok (ReturnValue a v), st2)"
  then show "evalProgram ev (pre @ stmt # rest) env st = (Ok v, st2)"
    by (simp add: evalProgram_def programLoop_append)
next
  assume "extendedFunctionEnv parameters fenv args st = (Ok extendedEnv, st1)"
    and "ev (BlockStatement body) extendedEnv st1 = (Ok (ReturnValue a v), st2)"
  then show "applyFunction h ev (Function f parameters body fenv) args st = (Ok v, st2)"
    by (simp add: applyFunction_def unwrapReturnValue_def)
next
  assume "Eval h n e env st = (Ok v, st1)" and "\<not> isError v"
  then show "Eval h (Suc (Suc n)) (Program [ReturnStatement e]) env st
      = (Ok v, st1\<lparr>next_ref := Suc (next_ref st1)\<rparr>)"
    by (simp add: evalProgram_def alloc_def)
qed

theorem return_signal_witness:
  "evalBlockStatement (Eval example_host 2)
     [ExpressionStatement (IntegerLiteral 1), ReturnStatement (IntegerLiteral 10),
      ReturnStatement (IntegerLiteral 1)] 0 root_state
     = (Ok (ReturnValue 0 (Integer 10)), root_state\<lparr>next_ref := 1\<rparr>)
   \<and> evalProgram (Eval example_host 2)
     [ExpressionStatement (IntegerLiteral 1), ReturnStatement (IntegerLiteral 10),
      ReturnStatement (IntegerLiteral 1)] 0 root_state
     = (Ok (Integer 10), root_state\<lparr>next_ref := 1\<rparr>)
   \<and> Eval example_host (Suc (Suc (Suc 0))) (Program [ReturnStatement (IntegerLiteral 10)]) 0 root_state
     = (Ok (Integer 10), root_state\<lparr>next_ref := 1\<rparr>)
   \<and> fst (Eval example_host 9
       (Program [ExpressionStatement (IfExpression (BooleanLiteral True)
          [ExpressionStatement (IfExpression (BooleanLiteral True)
             [ReturnStatement (IntegerLiteral 10)] None),
           ReturnStatement (IntegerLiteral 1)] None)]) 0 root_state)
     = Ok (Integer 10)"
proof -
  have nested: "fst (Eval example_host 9
       (Program [ExpressionStatement (IfExpression (BooleanLiteral True)
          [ExpressionStatement (IfExpression (BooleanLiteral True)
             [ReturnStatement (IntegerLiteral 10)] None),
           ReturnStatement (IntegerLiteral 1)] None)]) 0 root_state)
     = Ok (Integer 10)"
    by code_simp
  have p: "blockLoop (Eval example_host 2) [ExpressionStatement (IntegerLiteral 1)] 0 GoNil root_state
      = (Ok (Completed (Integer 1)), root_state)"
    "programLoop (Eval example_host 2) [ExpressionStatement (IntegerLiteral 1)] 0 GoNil root_state
      = (Ok (Completed (Integer 1)), root_state)"
    by (simp_all add: numeral_2_eq_2)
  have r: "Eval example_host 2 (ReturnStatement (IntegerLiteral 10)) 0 root_state
      = (Ok (ReturnValue 0 (Integer 10)), root_state\<lparr>next_ref := 1\<rparr>)"
    by (simp add: numeral_2_eq_2 alloc_def root_state_def)
  have e: "Eval example_host (Suc 0) (IntegerLiteral 10) 0 root_state = (Ok (Integer 10), root_state)"
    by simp
  have n: "next_ref root_state = 0" by (simp add: root_state_def)
  from return_signal_propagation [where ev = "Eval example_host 2"
      and pre = "[ExpressionStatement (IntegerLiteral 1)]" and env = 0 and st = root_state
      and l = "Integer 1" and ?st1.0 = root_state
      and stmt = "ReturnStatement (IntegerLiteral 10)" and a = 0 and v = "Integer 10"
      and ?st2.0 = "root_state\<lparr>next_ref := 1\<rparr>"
      and rest = "[ReturnStatement (IntegerLiteral 1)]" and h = example_host and n = "Suc 0"
      and e = "IntegerLiteral 10"] p r e n nested
  show ?thesis by simp
qed

subsection \<open>A program that ends in a let statement\<close>

text \<open>
  C10: for every program whose statements all evaluate without producing an error or a
  return signal (the loop of \<open>evalProgram\<close> runs to its end) and whose final statement
  is a let statement, the top-level result of \<open>Eval\<close> is the host's nil, which is not
  the \<open>NULL\<close> singleton.
\<close>

theorem program_ending_in_let_yields_nil:
  assumes "programLoop (Eval h n) (stmts @ [LetStatement name e]) env GoNil st
             = (Ok (Completed l), st')"
  shows "Eval h (Suc n) (Program (stmts @ [LetStatement name e])) env st = (Ok GoNil, st')
       \<and> GoNil \<noteq> NULL"
proof -
  from programLoop_snoc [OF assms] obtain st1 where
    "Eval h n (LetStatement name e) env st1 = (Ok l, st')" "\<not> isError l"
    by blast
  then have "l = GoNil" by (rule Eval_LetStatement_result)
  with assms show ?thesis by (simp add: evalProgram_def NULL_def)
qed

theorem program_ending_in_let_witness:
  "Eval example_host 3
     (Program [ExpressionStatement (IntegerLiteral 1), LetStatement ''a'' (IntegerLiteral 5)])
     0 root_state
   = (Ok GoNil, Set_env 0 ''a'' (Integer 5) root_state)"
proof -
  have "programLoop (Eval example_host 2)
          ([ExpressionStatement (IntegerLiteral 1)] @ [LetStatement ''a'' (IntegerLiteral 5)])
          0 GoNil root_state
        = (Ok (Completed GoNil), Set_env 0 ''a'' (Integer 5) root_state)"
    by (simp add: numeral_2_eq_2)
  from program_ending_in_let_yields_nil [OF this] show ?thesis
    by (simp add: numeral_3_eq_3 numeral_2_eq_2)
qed

subsection \<open>Hash literals with duplicate keys\<close>

lemma hashLoop_Cons_Completed:
  "hashLoop sh ev ((kn, vn) # rest) env acc st = (Ok (Completed m), st') \<longleftrightarrow>
   (\<exists>key st1 hk val st2.
      ev kn env st = (Ok key, st1) \<and> \<not> isError key \<and> HashKey sh key = Some hk
      \<and> ev vn env st1 = (Ok val, st2) \<and> \<not> isError val
      \<and> hashLoop sh ev rest env (AList.update hk (key, val) acc) st2 = (Ok (Completed m), st'))"
  (is "?L \<longleftrightarrow> ?R")
proof
  assume ?L
  then show ?R by (auto simp: and_then_eq_Ok split: if_splits option.splits)
next
  assume ?R
  then obtain key st1 hk val st2 where
    "ev kn env st = (Ok key, st1)" "\<not> isError key" "HashKey sh key = Some hk"
    "ev vn env st1 = (Ok val, st2)" "\<not> isError val"
    "hashLoop sh ev rest env (AList.update hk (key, val) acc) st2 = (Ok (Completed m), st')"
    by blast
  then show ?L by simp
qed

lemma hashLoop_distinct:
  "hashLoop sh ev vs env acc st = (Ok (Completed m), st') \<Longrightarrow> distinct (map fst acc) \<Longrightarrow>
   distinct (map fst m)"
proof (induction vs arbitrary: acc st)
  case Nil
  then show ?case by simp
next
  case (Cons p vs)
  obtain k v where p: "p = (k, v)" by (cases p)
  from Cons.prems(1) obtain key hk val st2 where
    l: "hashLoop sh ev vs env (AList.update hk (key, val) acc) st2 = (Ok (Completed m), st')"
    unfolding p hashLoop_Cons_Completed by blast
  from Cons.IH [OF l] Cons.prems(2) show ?case by (simp add: distinct_update)
qed

lemma hashLoop_Returned_isError:
  "hashLoop sh ev vs env acc st = (Ok (Returned v), st') \<Longrightarrow> isError v"
proof (induction vs arbitrary: acc st)
  case Nil
  then show ?case by simp
next
  case (Cons p vs)
  obtain k w where p: "p = (k, w)" by (cases p)
  from Cons.prems Cons.IH show ?case
    unfolding p
    by (auto simp: and_then_eq_Ok newError_def split: if_splits option.splits)
qed

lemma hashWrites_Cons_Completed:
  assumes "ev kn env st = (Ok key, st1)" "\<not> isError key" "HashKey sh key = Some hk"
    "ev vn env st1 = (Ok val, st2)" "\<not> isError val"
  shows "hashWrites sh ev ((kn, vn) # rest) env st = (hk, key, val) # hashWrites sh ev rest env st2"
  using assms by simp

lemma hashLoop_writes:
  "hashLoop sh ev vs env acc st = (Ok (Completed m), st') \<Longrightarrow>
   length (hashWrites sh ev vs env st) = length vs
   \<and> map_of m = map_of acc ++ map_of (rev (hashWrites sh ev vs env st))"
proof (induction vs arbitrary: acc st)
  case Nil
  then show ?case by simp
next
  case (Cons p vs)
  obtain k v where p: "p = (k, v)" by (cases p)
  from Cons.prems obtain key st1 hk val st2 where
    e: "ev k env st = (Ok key, st1)" "\<not> isError key" "HashKey sh key = Some hk"
       "ev v env st1 = (Ok val, st2)" "\<not> isError val"
    and l: "hashLoop sh ev vs env (AList.update hk (key, val) acc) st2 = (Ok (Completed m), st')"
    unfolding p hashLoop_Cons_Completed by blast
  have w: "hashWrites sh ev (p # vs) env st = (hk, key, val) # hashWrites sh ev vs env st2"
    unfolding p by (rule hashWrites_Cons_Completed [where ev = ev, OF e])
  from Cons.IH [OF l] have
    n: "length (hashWrites sh ev vs env st2) = length vs"
    and m: "map_of m = map_of (AList.update hk (key, val) acc)
                ++ map_of (rev (hashWrites sh ev vs env st2))"
    by simp_all
  have "map_of (AList.update hk (key, val) acc) = map_of acc ++ [hk \<mapsto> (key, val)]"
    by (simp add: update_conv')
  with m have "map_of m = map_of acc ++ map_of (rev (hashWrites sh ev (p # vs) env st))"
    by (simp add: w)
  with n w show ?case by simp
qed

lemma map_of_last_write:
  assumes "ws = ws1 @ (hk, kv) # ws2" and "hk \<notin> fst ` set ws2"
  shows "map_of (rev ws) hk = Some kv"
proof -
  have "map_of (rev ws2) hk = None"
    using assms(2) by (simp add: map_of_eq_None_iff)
  then show ?thesis by (simp add: assms(1) map_add_def)
qed

lemma hashLoop_append:
  "hashLoop sh ev (pre @ post) env acc st = (Ok (Completed m), st') \<Longrightarrow>
   \<exists>m1 s1. hashLoop sh ev pre env acc st = (Ok (Completed m1), s1)
     \<and> hashLoop sh ev post env m1 s1 = (Ok (Completed m), st')
     \<and> hashWrites sh ev (pre @ post) env st
         = hashWrites sh ev pre env st @ hashWrites sh ev post env s1"
proof (induction pre arbitrary: acc st)
  case Nil
  then show ?case by simp
next
  case (Cons p pre)
  obtain k v where p: "p = (k, v)" by (cases p)
  from Cons.prems obtain key st1 hk val st2 where
    e: "ev k env st = (Ok key, st1)" "\<not> isError key" "HashKey sh key = Some hk"
       "ev v env st1 = (Ok val, st2)" "\<not> isError val"
    and l: "hashLoop sh ev (pre @ post) env (AList.update hk (key, val) acc) st2
              = (Ok (Completed m), st')"
    unfolding p append_Cons hashLoop_Cons_Completed by blast
  from Cons.IH [OF l] obtain m1 s1 where
    i: "hashLoop sh ev pre env (AList.update hk (key, val) acc) st2 = (Ok (Completed m1), s1)"
       "hashLoop sh ev post env m1 s1 = (Ok (Completed m), st')"
       "hashWrites sh ev (pre @ post) env st2
          = hashWrites sh ev pre env st2 @ hashWrites sh ev post env s1"
    by blast
  have "hashLoop sh ev (p # pre) env acc st = (Ok (Completed m1), s1)"
    unfolding p hashLoop_Cons_Completed using e i(1) by blast
  moreover have "hashWrites sh ev ((p # pre) @ post) env st
      = hashWrites sh ev (p # pre) env st @ hashWrites sh ev post env s1"
    unfolding p append_Cons hashWrites_Cons_Completed [where ev = ev, OF e] i(3) by simp
  ultimately show ?case using i(2) by blast
qed

lemma hashLoop_nth:
  assumes c: "hashLoop sh ev vs env acc st = (Ok (Completed m), st')" and i: "i < length vs"
  shows "\<exists>mi s1 key s2 hk val s3.
     hashLoop sh ev (take i vs) env acc st = (Ok (Completed mi), s1)
     \<and> ev (fst (vs ! i)) env s1 = (Ok key, s2) \<and> HashKey sh key = Some hk
     \<and> ev (snd (vs ! i)) env s2 = (Ok val, s3)
     \<and> hashWrites sh ev vs env st ! i = (hk, key, val)"
proof -
  obtain k v where kv: "vs ! i = (k, v)" by (cases "vs ! i")
  have s: "vs = take i vs @ (k, v) # drop (Suc i) vs"
    using i kv by (metis id_take_nth_drop)
  from c have "hashLoop sh ev (take i vs @ (k, v) # drop (Suc i) vs) env acc st
      = (Ok (Completed m), st')"
    using s by simp
  from hashLoop_append [OF this] obtain mi s1 where
    a: "hashLoop sh ev (take i vs) env acc st = (Ok (Completed mi), s1)"
       "hashLoop sh ev ((k, v) # drop (Suc i) vs) env mi s1 = (Ok (Completed m), st')"
       "hashWrites sh ev (take i vs @ (k, v) # drop (Suc i) vs) env st
         = hashWrites sh ev (take i vs) env st
           @ hashWrites sh ev ((k, v) # drop (Suc i) vs) env s1"
    by blast
  from a(2) obtain key s2 hk val s3 where
    e: "ev k env s1 = (Ok key, s2)" "\<not> isError key" "HashKey sh key = Some hk"
       "ev v env s2 = (Ok val, s3)" "\<not> isError val"
    unfolding hashLoop_Cons_Completed by blast
  have n: "length (hashWrites sh ev (take i vs) env st) = i"
    using hashLoop_writes [OF a(1)] i by simp
  have "hashWrites sh ev vs env st
      = hashWrites sh ev (take i vs) env st
        @ (hk, key, val) # hashWrites sh ev (drop (Suc i) vs) env s3"
    using a(3) s hashWrites_Cons_Completed [where ev = ev, OF e] by simp
  then have "hashWrites sh ev vs env st ! i = (hk, key, val)"
    using n by (metis nth_append_length)
  with a(1) e kv show ?thesis by simp
qed

text \<open>
  C7, as stated, fails: \<open>evalHashLiteral\<close> ranges over the host map \<open>Pairs\<close>, whose
  iteration order the host does not fix. When the loop visits the entries of
  \<open>{"a": 1, "a": 2}\<close> in the order opposite to the written one, the single pair of the
  result is \<open>"a" -> 1\<close>.
\<close>

theorem duplicate_hash_keys_counterexample:
  "Eval reversing_host 2
     (HashLiteral [(StringLiteral ''a'', IntegerLiteral 1), (StringLiteral ''a'', IntegerLiteral 2)])
     0 root_state
   = (Ok (Hash 2 [(MkHashKey STRING_OBJ 1, String 1 ''a'', Integer 1)]),
      root_state\<lparr>next_ref := 3\<rparr>)
   \<and> range_order reversing_host
        [(StringLiteral ''a'', IntegerLiteral 1), (StringLiteral ''a'', IntegerLiteral 2)]
     = [(StringLiteral ''a'', IntegerLiteral 2), (StringLiteral ''a'', IntegerLiteral 1)]"
  by (simp add: numeral_2_eq_2 evalHashLiteral_def reversing_host_def example_host_def alloc_def
      root_state_def)

text \<open>
  C7, amended: for every hash literal that evaluates to a hash, whatever order \<open>vs\<close>
  the loop visits the entries in: every visited entry is evaluated (its key, then its
  value, in the state the entries before it left) and written, in that order (\<open>ws\<close>);
  the result holds exactly one pair for each hash key written; and for every hash key
  that pair is the key and the value of the occurrence visited last among the entries
  whose key evaluates to that hash key, whether or not other entries are visited after
  it. For \<open>{"a": 1, "a": 2, "bb": 3}\<close> visited in the written order the pair of
  \<open>"a"\<close> is \<open>"a" -> 2\<close>.
\<close>

theorem last_visited_duplicate_wins:
  fixes vs ws
  assumes "evalHashLiteral h ev entries env st = (Ok (Hash a pairs), st')"
    and vs: "vs = range_order h entries"
    and ws: "ws = hashWrites (string_hash h) ev vs env st"
  shows "length ws = length vs
     \<and> (\<forall>i<length vs. \<exists>mi s1 key s2 hk val s3.
           hashLoop (string_hash h) ev (take i vs) env [] st = (Ok (Completed mi), s1)
         \<and> ev (fst (vs ! i)) env s1 = (Ok key, s2) \<and> HashKey (string_hash h) key = Some hk
         \<and> ev (snd (vs ! i)) env s2 = (Ok val, s3)
         \<and> ws ! i = (hk, key, val))
     \<and> distinct (map fst pairs)
     \<and> fst ` set pairs = fst ` set ws
     \<and> (\<forall>ws1 hk key val ws2.
           ws = ws1 @ (hk, key, val) # ws2 \<and> hk \<notin> fst ` set ws2 \<longrightarrow>
           map_of pairs hk = Some (key, val))"
proof -
  from assms(1) obtain r st3 where
    l: "hashLoop (string_hash h) ev vs env [] st = (Ok r, st3)"
    and f: "(case r of
               Returned v \<Rightarrow> (Ok v, st3)
             | Completed ps \<Rightarrow> (case alloc st3 of (a, st4) \<Rightarrow> (Ok (Hash a ps), st4)))
            = (Ok (Hash a pairs), st')"
    unfolding vs by (auto simp: evalHashLiteral_def and_then_eq_Ok)
  have r: "r = Completed pairs"
  proof (cases r)
    case (Returned v)
    with l have "isError v" by (auto dest: hashLoop_Returned_isError)
    with f Returned show ?thesis by simp
  next
    case (Completed ps)
    with f show ?thesis by (simp add: alloc_def)
  qed
  from l r have c: "hashLoop (string_hash h) ev vs env [] st = (Ok (Completed pairs), st3)"
    by simp
  from hashLoop_writes [OF c] have n: "length ws = length vs"
    and m: "map_of pairs = map_of (rev ws)"
    unfolding ws by simp_all
  have d: "distinct (map fst pairs)" using hashLoop_distinct [OF c] by simp
  have k: "fst ` set pairs = fst ` set ws"
  proof -
    have "dom (map_of pairs) = dom (map_of (rev ws))" by (simp only: m)
    then show ?thesis by (simp add: dom_map_of_conv_image_fst)
  qed
  have i: "\<forall>i<length vs. \<exists>mi s1 key s2 hk val s3.
           hashLoop (string_hash h) ev (take i vs) env [] st = (Ok (Completed mi), s1)
         \<and> ev (fst (vs ! i)) env s1 = (Ok key, s2) \<and> HashKey (string_hash h) key = Some hk
         \<and> ev (snd (vs ! i)) env s2 = (Ok val, s3)
         \<and> ws ! i = (hk, key, val)"
  proof (intro allI impI)
    fix i assume "i < length vs"
    from hashLoop_nth [OF c this]
    show "\<exists>mi s1 key s2 hk val s3.
           hashLoop (string_hash h) ev (take i vs) env [] st = (Ok (Completed mi), s1)
         \<and> ev (fst (vs ! i)) env s1 = (Ok key, s2) \<and> HashKey (string_hash h) key = Some hk
         \<and> ev (snd (vs ! i)) env s2 = (Ok val, s3)
         \<and> ws ! i = (hk, key, val)"
      unfolding ws .
  qed
  have w: "\<forall>ws1 hk key val ws2.
           ws = ws1 @ (hk, key, val) # ws2 \<and> hk \<notin> fst ` set ws2 \<longrightarrow>
           map_of pairs hk = Some (key, val)"
  proof (intro allI impI, elim conjE)
    fix ws1 hk key val ws2
    assume "ws = ws1 @ (hk, key, val) # ws2" and "hk \<notin> fst ` set ws2"
    then show "map_of pairs hk = Some (key, val)"
      unfolding m by (rule map_of_last_write)
  qed
  show ?thesis by (intro conjI) (rule n, rule i, rule d, rule k, rule w)
qed

theorem last_visited_duplicate_witness:
  "Eval example_host 2
     (HashLiteral [(StringLiteral ''a'', IntegerLiteral 1), (StringLiteral ''a'', IntegerLiteral 2),
                   (StringLiteral ''bb'', IntegerLiteral 3)])
     0 root_state
   = (Ok (Hash 3 [(MkHashKey STRING_OBJ 1, String 1 ''a'', Integer 2),
                  (MkHashKey STRING_OBJ 2, String 2 ''bb'', Integer 3)]),
      root_state\<lparr>next_ref := 4\<rparr>)
   \<and> hashWrites (string_hash example_host) (Eval example_host 1)
       [(StringLiteral ''a'', IntegerLiteral 1), (StringLiteral ''a'', IntegerLiteral 2),
        (StringLiteral ''bb'', IntegerLiteral 3)] 0 root_state
     = [(MkHashKey STRING_OBJ 1, String 0 ''a'', Integer 1),
        (MkHashKey STRING_OBJ 1, String 1 ''a'', Integer 2),
        (MkHashKey STRING_OBJ 2, String 2 ''bb'', Integer 3)]
   \<and> map_of [(MkHashKey STRING_OBJ 1, String 1 ''a'', Integer 2),
              (MkHashKey STRING_OBJ 2, String 2 ''bb'', Integer 3)] (MkHashKey STRING_OBJ 1)
     = Some (String 1 ''a'', Integer 2)
   \<and> distinct (map fst [(MkHashKey STRING_OBJ (1 :: 64 word), String 1 ''a'', Integer 2),
              (MkHashKey STRING_OBJ 2, String 2 ''bb'', Integer 3)])"
proof -
  let ?E = "[(StringLiteral ''a'', IntegerLiteral 1), (StringLiteral ''a'', IntegerLiteral 2),
             (StringLiteral ''bb'', IntegerLiteral 3)]"
  let ?P = "[(MkHashKey STRING_OBJ 1, String 1 ''a'', Integer 2),
             (MkHashKey STRING_OBJ 2, String 2 ''bb'', Integer 3)]"
  have o: "?E = range_order example_host ?E"
    by (simp add: example_host_def)
  have e: "evalHashLiteral example_host (Eval example_host 1) ?E 0 root_state
     = (Ok (Hash 3 ?P), root_state\<lparr>next_ref := 4\<rparr>)"
    by (simp add: evalHashLiteral_def example_host_def alloc_def root_state_def)
  have w: "hashWrites (string_hash example_host) (Eval example_host 1) ?E 0 root_state
     = [(MkHashKey STRING_OBJ 1, String 0 ''a'', Integer 1),
        (MkHashKey STRING_OBJ 1, String 1 ''a'', Integer 2),
        (MkHashKey STRING_OBJ 2, String 2 ''bb'', Integer 3)]"
    by (simp add: example_host_def alloc_def root_state_def)
  note t = last_visited_duplicate_wins [OF e o w [symmetric]]
  note d = t [THEN conjunct2, THEN conjunct2, THEN conjunct1]
  from t have "\<forall>ws1 hk key val ws2.
      [(MkHashKey STRING_OBJ 1, String 0 ''a'', Integer 1),
       (MkHashKey STRING_OBJ 1, String 1 ''a'', Integer 2),
       (MkHashKey STRING_OBJ 2, String 2 ''bb'', Integer 3)] = ws1 @ (hk, key, val) # ws2
        \<and> hk \<notin> fst ` set ws2 \<longrightarrow> map_of ?P hk = Some (key, val)"
    by (rule conjunct2 [THEN conjunct2, THEN conjunct2, THEN conjunct2])
  from this [rule_format, of "[(MkHashKey STRING_OBJ 1, String 0 ''a'', Integer 1)]"
      "MkHashKey STRING_OBJ 1" "String 1 ''a''" "Integer 2"
      "[(MkHashKey STRING_OBJ 2, String 2 ''bb'', Integer 3)]"]
  have l: "map_of ?P (MkHashKey STRING_OBJ 1) = Some (String 1 ''a'', Integer 2)"
    by simp
  from e have v: "Eval example_host 2 (HashLiteral ?E) 0 root_state
     = (Ok (Hash 3 ?P), root_state\<lparr>next_ref := 4\<rparr>)"
    by (simp add: numeral_2_eq_2)
  show ?thesis by (intro conjI) (rule v, rule w, rule l, rule d)
qed

end
